theory Spec2Isabelle
  imports Main "HOL-Library.Word"
begin

section \<open>Data model of \<^verbatim>\<open>CircuitBreaker.cpp\<close>\<close>

text \<open>
  The three states of the breaker, in the order of the C++ enumeration
  (so that \<^verbatim>\<open>static_cast<int>\<close> gives 0, 1 and 2).
\<close>

datatype CircuitState = CLOSED | OPEN | HALF_OPEN

text \<open>
  A C++ \<^verbatim>\<open>int\<close> is a 32-bit two's complement value. The two counters are
  \<^verbatim>\<open>std::atomic<int>\<close>, whose increment wraps around without undefined behaviour;
  comparisons read both sides as signed values (\<open>sint\<close>).

  A \<^verbatim>\<open>system_clock::time_point\<close> is a count of clock ticks; it is modelled as an
  unbounded integer (the 64-bit tick count of a real clock does not overflow in any
  run the theorems speak about).
\<close>

type_synonym cint = "32 word"
type_synonym time_point = int

record circuit_breaker =
  failureThreshold :: cint
  retryTime :: cint
  successThreshold :: cint
  failureCount :: cint
  successCount :: cint
  state :: CircuitState
  lastFailureTime :: time_point

text \<open>
  What one invocation of the caller's operation does. \<^verbatim>\<open>execute\<close> returns the
  operation's result and the fallback through the same deduced return type, so the result
  is a \<^verbatim>\<open>std::string\<close>. The handler of \<^verbatim>\<open>execute\<close> is
  \<^verbatim>\<open>catch (const std::exception&)\<close>: an exception of a type derived from
  \<^verbatim>\<open>std::exception\<close> is caught there, any other thrown object is not.
\<close>

datatype outcome = Returns string | ThrowsStdException | ThrowsOther

text \<open>The only exception that can leave a member function of the class.\<close>

datatype exn = UncaughtException

text \<open>
  The operation runs in an outside world of type \<open>'w\<close> (the remote service, the
  operation's own counters, the system clock) and may change it.
\<close>

type_synonym 'w operation = "'w \<Rightarrow> outcome \<times> 'w"

text \<open>
  The mutex is observed through the events of one call: \<^verbatim>\<open>std::lock_guard\<close>
  acquires it where it is declared and releases it when its scope is left.
\<close>

datatype event = Acquire | Invoke | Release

record 'w execution =
  returned :: "exn + string"
  breaker :: circuit_breaker
  world :: 'w
  trace :: "event list"

section \<open>Operations\<close>

text \<open>
  The constructor (lines 19--26) stores its three arguments unchecked, zeroes the counters,
  starts in \<^verbatim>\<open>CLOSED\<close> and reads the clock. It contains no \<^verbatim>\<open>throw\<close>.
\<close>

definition CircuitBreaker :: "cint \<Rightarrow> cint \<Rightarrow> cint \<Rightarrow> time_point \<Rightarrow> exn + circuit_breaker" where
  "CircuitBreaker ft rt st now =
     Inr \<lparr>failureThreshold = ft, retryTime = rt, successThreshold = st,
          failureCount = 0, successCount = 0, state = CLOSED, lastFailureTime = now\<rparr>"

text \<open>
  \<^verbatim>\<open>duration_cast<seconds>\<close> of a tick count truncates towards zero.
  The tick of \<^verbatim>\<open>system_clock\<close> is a nanosecond (libstdc++).
\<close>

definition ticks_per_second :: int where
  "ticks_per_second = 1000000000"

definition duration_cast_seconds :: "int \<Rightarrow> int" where
  "duration_cast_seconds d =
     (if 0 \<le> d then d div ticks_per_second else - ((- d) div ticks_per_second))"

definition fallback :: string where
  "fallback = ''Service is unavailable. Returning fallback response.''"

text \<open>Lines 94--98.\<close>

definition reset :: "circuit_breaker \<Rightarrow> circuit_breaker" where
  "reset b = b\<lparr>state := CLOSED, failureCount := 0, successCount := 0\<rparr>"

text \<open>Lines 73--79; \<open>now\<close> is the clock as read on line 77.\<close>

definition onFailure :: "time_point \<Rightarrow> circuit_breaker \<Rightarrow> circuit_breaker" where
  "onFailure now b =
     (let b1 = b\<lparr>failureCount := failureCount b + 1\<rparr> in
      if sint (failureThreshold b1) \<le> sint (failureCount b1)
      then b1\<lparr>state := OPEN, lastFailureTime := now\<rparr>
      else b1)"

text \<open>Lines 82--91.\<close>

definition onSuccess :: "circuit_breaker \<Rightarrow> circuit_breaker" where
  "onSuccess b =
     (if state b = HALF_OPEN then
        (let b1 = b\<lparr>successCount := successCount b + 1\<rparr> in
         if sint (successThreshold b1) \<le> sint (successCount b1) then reset b1 else b1)
      else b\<lparr>failureCount := 0\<rparr>)"

text \<open>
  Lines 33--41 of \<^verbatim>\<open>execute\<close>: \<open>None\<close> is the early return of the fallback,
  \<open>Some\<close> the breaker with which the call goes on to the \<^verbatim>\<open>try\<close> block.
  \<open>now\<close> is the clock as read on line 36.
\<close>

definition execute_guard :: "time_point \<Rightarrow> circuit_breaker \<Rightarrow> circuit_breaker option" where
  "execute_guard now b =
     (if state b = OPEN then
        (if sint (retryTime b) \<le> duration_cast_seconds (now - lastFailureTime b)
         then Some (b\<lparr>state := HALF_OPEN\<rparr>)
         else None)
      else Some b)"

text \<open>
  Lines 43--50: the operation is invoked once; the clock that \<^verbatim>\<open>onFailure\<close>
  reads is the clock of the world the operation leaves behind. The lock is not touched
  here: the events are those of the block alone.
\<close>

definition execute_try ::
  "('w \<Rightarrow> time_point) \<Rightarrow> 'w operation \<Rightarrow> circuit_breaker \<Rightarrow> 'w \<Rightarrow> 'w execution" where
  "execute_try clock func b w =
     (case func w of
        (Returns r, w') \<Rightarrow>
          \<lparr>returned = Inr r, breaker = onSuccess b, world = w', trace = [Invoke]\<rparr>
      | (ThrowsStdException, w') \<Rightarrow>
          \<lparr>returned = Inr fallback, breaker = onFailure (clock w') b, world = w',
           trace = [Invoke]\<rparr>
      | (ThrowsOther, w') \<Rightarrow>
          \<lparr>returned = Inl UncaughtException, breaker = b, world = w', trace = [Invoke]\<rparr>)"

text \<open>
  Lines 30--51. The \<^verbatim>\<open>lock_guard\<close> of line 31 lives until the function is left,
  by either \<^verbatim>\<open>return\<close> or by the exception that passes through.
\<close>

definition execute ::
  "('w \<Rightarrow> time_point) \<Rightarrow> 'w operation \<Rightarrow> circuit_breaker \<Rightarrow> 'w \<Rightarrow> 'w execution" where
  "execute clock func b w =
     (let body =
        (case execute_guard (clock w) b of
           None \<Rightarrow> \<lparr>returned = Inr fallback, breaker = b, world = w, trace = []\<rparr>
         | Some b1 \<Rightarrow> execute_try clock func b1 w)
      in body\<lparr>trace := Acquire # trace body @ [Release]\<rparr>)"

text \<open>
  Lines 54--60. The function takes no lock and assigns to no member. The three
  initialisers are evaluated in their order: \<^verbatim>\<open>failureCount_\<close> is loaded on
  line 56, \<^verbatim>\<open>successCount_\<close> on line 57 and \<^verbatim>\<open>state_\<close> is read on
  line 58. As no lock is held, a call of \<^verbatim>\<open>execute\<close> on another thread can run
  between two of the reads: \<open>getMetrics_reads\<close> takes the breaker as it is at the
  first, at the second and at the third read.
\<close>

definition state_ordinal :: "CircuitState \<Rightarrow> cint" where
  "state_ordinal s = (case s of CLOSED \<Rightarrow> 0 | OPEN \<Rightarrow> 1 | HALF_OPEN \<Rightarrow> 2)"

definition getMetrics_reads ::
  "circuit_breaker \<Rightarrow> circuit_breaker \<Rightarrow> circuit_breaker \<Rightarrow> (string \<rightharpoonup> cint)" where
  "getMetrics_reads bf bs bt =
     [''failureCount'' \<mapsto> failureCount bf,
      ''successCount'' \<mapsto> successCount bs,
      ''currentState'' \<mapsto> state_ordinal (state bt)]"

text \<open>
  A call of \<^verbatim>\<open>getMetrics\<close> that no other thread interferes with: the breaker is
  the same at the three reads, and it is left as it was.
\<close>

definition getMetrics :: "circuit_breaker \<Rightarrow> (string \<rightharpoonup> cint) \<times> circuit_breaker" where
  "getMetrics b = (getMetrics_reads b b b, b)"

section \<open>Runs\<close>

text \<open>
  A run is a list of calls of \<^verbatim>\<open>execute\<close>; each call comes with the world in
  which it starts (time passes between two calls) and with its operation.
\<close>

definition call ::
  "('w \<Rightarrow> time_point) \<Rightarrow> circuit_breaker \<Rightarrow> 'w \<times> 'w operation \<Rightarrow> circuit_breaker" where
  "call clock b c = breaker (execute clock (snd c) b (fst c))"

definition run ::
  "('w \<Rightarrow> time_point) \<Rightarrow> circuit_breaker \<Rightarrow> ('w \<times> 'w operation) list \<Rightarrow> circuit_breaker" where
  "run clock b cs = foldl (call clock) b cs"

definition outcome_of :: "'w \<times> 'w operation \<Rightarrow> outcome" where
  "outcome_of c = fst (snd c (fst c))"

text \<open>
  The breakers that a program can hold: a constructed one, and any one left by a call of
  \<^verbatim>\<open>execute\<close>. The breaker sees nothing of the world but the clock, so the world
  of this definition is the clock itself.
\<close>

inductive reachable :: "circuit_breaker \<Rightarrow> bool" where
  constructed: "CircuitBreaker ft rt st now = Inr b \<Longrightarrow> reachable b"
| executed: "reachable b \<Longrightarrow> reachable (breaker (execute (\<lambda>t. t) func b now))"

section \<open>Notions used by the properties\<close>

text \<open>
  The number of consecutive caught failures at the end of a sequence of outcomes. A caught
  failure is an exception that the handler of \<^verbatim>\<open>execute\<close> catches. A call that
  ends in an uncaught exception runs neither \<^verbatim>\<open>onSuccess\<close> nor
  \<^verbatim>\<open>onFailure\<close>: it is skipped, it neither adds to the failures nor ends them.
\<close>

definition caught_failure_streak :: "outcome list \<Rightarrow> nat" where
  "caught_failure_streak os =
     length (takeWhile (\<lambda>x. x = ThrowsStdException)
       (rev (filter (\<lambda>x. x \<noteq> ThrowsOther) os)))"

definition is_success :: "outcome \<Rightarrow> bool" where
  "is_success x = (case x of Returns r \<Rightarrow> True | _ \<Rightarrow> False)"

text \<open>
  The number of consecutive failed operations at the end of a sequence of outcomes, when
  every operation that does not return counts as failed, whatever it throws.
\<close>

definition operation_failure_streak :: "outcome list \<Rightarrow> nat" where
  "operation_failure_streak os = length (takeWhile (\<lambda>x. \<not> is_success x) (rev os))"

text \<open>
  Whether some invocation of the operation in a trace happens while the mutex is held;
  the first argument says whether the mutex is held when the trace begins.
\<close>

fun invoked_while_held :: "bool \<Rightarrow> event list \<Rightarrow> bool" where
  "invoked_while_held held [] = False"
| "invoked_while_held held (Acquire # es) = invoked_while_held True es"
| "invoked_while_held held (Release # es) = invoked_while_held False es"
| "invoked_while_held held (Invoke # es) = (held \<or> invoked_while_held held es)"

text \<open>The largest \<^verbatim>\<open>int\<close>.\<close>

definition INT_MAX :: cint where
  "INT_MAX = 2147483647"

section \<open>A concrete scenario\<close>

text \<open>
  The breaker of \<^verbatim>\<open>main\<close>, \<^verbatim>\<open>cb(3, 5, 2)\<close>, constructed at time 0. The
  world of the scenario is the clock together with a counter of the invocations of the
  operation; the three operation stubs count their invocations and leave the clock alone.
\<close>

definition demo :: circuit_breaker where
  "demo = projr (CircuitBreaker 3 5 2 0)"

definition at_second :: "int \<Rightarrow> time_point \<times> nat" where
  "at_second s = (s * ticks_per_second, 0)"

definition succeeding :: "(time_point \<times> nat) operation" where
  "succeeding w = (Returns ''Service success'', (fst w, Suc (snd w)))"

definition failing :: "(time_point \<times> nat) operation" where
  "failing w = (ThrowsStdException, (fst w, Suc (snd w)))"

definition throwing_other :: "(time_point \<times> nat) operation" where
  "throwing_other w = (ThrowsOther, (fst w, Suc (snd w)))"

text \<open>Three failures one second apart trip the breaker.\<close>

definition three_failures :: "((time_point \<times> nat) \<times> (time_point \<times> nat) operation) list" where
  "three_failures = [(at_second 0, failing), (at_second 1, failing), (at_second 2, failing)]"

definition demo_tripped :: circuit_breaker where
  "demo_tripped = run fst demo three_failures"

text \<open>The breaker after the first two of the three failures.\<close>

definition demo_two_failures :: circuit_breaker where
  "demo_two_failures = run fst demo [(at_second 0, failing), (at_second 1, failing)]"

text \<open>Three operations one second apart that throw an object the handler does not catch.\<close>

definition three_uncaught :: "((time_point \<times> nat) \<times> (time_point \<times> nat) operation) list" where
  "three_uncaught =
     [(at_second 0, throwing_other), (at_second 1, throwing_other), (at_second 2, throwing_other)]"


text \<open>Five seconds after the last failure a successful trial call is made.\<close>

definition demo_trial :: circuit_breaker where
  "demo_trial = run fst demo_tripped [(at_second 7, succeeding)]"

text \<open>The next trial call, one second later, fails.\<close>

definition demo_reopened :: circuit_breaker where
  "demo_reopened = run fst demo_trial [(at_second 8, failing)]"


section \<open>Invariants\<close>

text \<open>
  Outside \<^verbatim>\<open>CLOSED\<close> the failures counted have reached the threshold.
\<close>

definition counted :: "circuit_breaker \<Rightarrow> bool" where
  "counted b = (state b = CLOSED \<or> sint (failureThreshold b) \<le> sint (failureCount b))"


section \<open>A breaker whose counter wraps\<close>

text \<open>
  A breaker with the largest threshold an \<^verbatim>\<open>int\<close> can hold: it trips at the
  2147483647th consecutive failure; the failure of the trial call five seconds later
  increments \<^verbatim>\<open>failureCount\<close> once more.
\<close>

definition saturated :: circuit_breaker where
  "saturated = projr (CircuitBreaker INT_MAX 5 2 0)"

definition saturated_tripped :: circuit_breaker where
  "saturated_tripped = run fst saturated (replicate 2147483647 (at_second 0, failing))"

definition saturated_wrapped :: circuit_breaker where
  "saturated_wrapped = run fst saturated_tripped [(at_second 5, failing)]"

section \<open>Evaluation of the model\<close>

lemmas model_defs =
  run_def call_def execute_def execute_guard_def execute_try_def onFailure_def onSuccess_def
  reset_def duration_cast_seconds_def ticks_per_second_def CircuitBreaker_def Let_def

lemmas stub_defs =
  at_second_def succeeding_def failing_def throwing_other_def three_failures_def

lemma demo_eq:
  "demo = \<lparr>failureThreshold = 3, retryTime = 5, successThreshold = 2, failureCount = 0,
           successCount = 0, state = CLOSED, lastFailureTime = 0\<rparr>"
  by (simp add: demo_def CircuitBreaker_def)

lemma demo_tripped_eq:
  "demo_tripped = \<lparr>failureThreshold = 3, retryTime = 5, successThreshold = 2,
           failureCount = 3, successCount = 0, state = OPEN, lastFailureTime = 2000000000\<rparr>"
  by (simp add: demo_tripped_def demo_eq model_defs stub_defs)

lemma demo_trial_eq:
  "demo_trial = \<lparr>failureThreshold = 3, retryTime = 5, successThreshold = 2,
           failureCount = 3, successCount = 1, state = HALF_OPEN,
           lastFailureTime = 2000000000\<rparr>"
  by (simp add: demo_trial_def demo_tripped_eq model_defs stub_defs)

lemma demo_reopened_eq:
  "demo_reopened = \<lparr>failureThreshold = 3, retryTime = 5, successThreshold = 2,
           failureCount = 4, successCount = 1, state = OPEN, lastFailureTime = 8000000000\<rparr>"
  by (simp add: demo_reopened_def demo_trial_eq model_defs stub_defs)

lemma demo_two_failures_eq:
  "demo_two_failures = \<lparr>failureThreshold = 3, retryTime = 5, successThreshold = 2,
           failureCount = 2, successCount = 0, state = CLOSED, lastFailureTime = 0\<rparr>"
  by (simp add: demo_two_failures_def demo_eq model_defs stub_defs)



section \<open>The parts of \<^verbatim>\<open>execute\<close>\<close>

lemma execute_guard_blocked:
  "state b = OPEN \<Longrightarrow> duration_cast_seconds (now - lastFailureTime b) < sint (retryTime b)
   \<Longrightarrow> execute_guard now b = None"
  by (simp add: execute_guard_def)

lemma execute_guard_retry:
  "state b = OPEN \<Longrightarrow> sint (retryTime b) \<le> duration_cast_seconds (now - lastFailureTime b)
   \<Longrightarrow> execute_guard now b = Some (b\<lparr>state := HALF_OPEN\<rparr>)"
  by (simp add: execute_guard_def)


lemma trace_execute_try: "trace (execute_try clock func b w) = [Invoke]"
  by (simp add: execute_try_def split: prod.splits outcome.splits)

lemma world_execute_try: "world (execute_try clock func b w) = snd (func w)"
  by (simp add: execute_try_def split: prod.splits outcome.splits)

lemma breaker_execute_try:
  "breaker (execute_try clock func b w) =
     (case fst (func w) of
        Returns r \<Rightarrow> onSuccess b
      | ThrowsStdException \<Rightarrow> onFailure (clock (snd (func w))) b
      | ThrowsOther \<Rightarrow> b)"
  by (simp add: execute_try_def split: prod.splits outcome.splits)

lemma returned_execute_try:
  "returned (execute_try clock func b w) =
     (case fst (func w) of
        Returns r \<Rightarrow> Inr r
      | ThrowsStdException \<Rightarrow> Inr fallback
      | ThrowsOther \<Rightarrow> Inl UncaughtException)"
  by (simp add: execute_try_def split: prod.splits outcome.splits)

lemma execute_blocked:
  assumes "execute_guard (clock w) b = None"
  shows "execute clock func b w =
    \<lparr>returned = Inr fallback, breaker = b, world = w, trace = [Acquire, Release]\<rparr>"
  using assms by (simp add: execute_def)

lemma execute_admitted:
  assumes "execute_guard (clock w) b = Some b1"
  shows "execute clock func b w =
    (execute_try clock func b1 w)\<lparr>trace := [Acquire, Invoke, Release]\<rparr>"
  using assms by (simp add: execute_def trace_execute_try)

lemma breaker_execute:
  "breaker (execute clock func b w) =
     (case execute_guard (clock w) b of
        None \<Rightarrow> b
      | Some b1 \<Rightarrow> breaker (execute_try clock func b1 w))"
  by (simp add: execute_def Let_def split: option.splits)

lemma run_Nil: "run clock b [] = b"
  by (simp add: run_def)


lemma run_snoc: "run clock b (cs @ [c]) = call clock (run clock b cs) c"
  by (simp add: run_def)

section \<open>Arithmetic of the counters\<close>

lemma sint_of_nat_32:
  "n < 2147483648 \<Longrightarrow> sint (of_nat n :: cint) = int n"
  by (simp add: signed_of_nat signed_take_bit_int_eq_self)

lemma sint_succ:
  fixes x :: cint
  assumes "sint x < 2147483647"
  shows "sint (x + 1) = sint x + 1"
proof -
  have lo: "- 2147483648 \<le> sint x"
    using sint_greater_eq [of x] by simp
  have "sint (x + 1) = signed_take_bit 31 (sint x + 1)"
    by (simp add: sint_word_ariths)
  also have "\<dots> = sint x + 1"
    using lo assms by (simp add: signed_take_bit_int_eq_self)
  finally show ?thesis .
qed


section \<open>Failures in the closed state\<close>

lemma caught_failure_streak_simps:
  "caught_failure_streak [] = 0"
  "caught_failure_streak (os @ [Returns r]) = 0"
  "caught_failure_streak (os @ [ThrowsStdException]) = Suc (caught_failure_streak os)"
  "caught_failure_streak (os @ [ThrowsOther]) = caught_failure_streak os"
  by (simp_all add: caught_failure_streak_def)

lemma call_closed:
  assumes "state b = CLOSED"
  shows "call clock b c =
     (case outcome_of c of
        Returns r \<Rightarrow> b\<lparr>failureCount := 0\<rparr>
      | ThrowsStdException \<Rightarrow> onFailure (clock (snd (snd c (fst c)))) b
      | ThrowsOther \<Rightarrow> b)"
  using assms
  by (simp add: call_def breaker_execute execute_guard_def breaker_execute_try onSuccess_def
      outcome_of_def split: outcome.splits)

lemma closed_run_counts:
  assumes "state b = CLOSED" and "failureCount b = 0" and "0 < sint (failureThreshold b)"
    and "\<forall>k<length cs. state (run clock b (take k cs)) = CLOSED"
  shows "caught_failure_streak (map outcome_of cs) \<le> nat (sint (failureThreshold b))
       \<and> failureThreshold (run clock b cs) = failureThreshold b
       \<and> failureCount (run clock b cs) = of_nat (caught_failure_streak (map outcome_of cs))
       \<and> state (run clock b cs) =
           (if caught_failure_streak (map outcome_of cs) = nat (sint (failureThreshold b))
            then OPEN else CLOSED)"
  using assms(4)
proof (induction cs rule: rev_induct)
  case Nil
  show ?case using assms(1-3) by (simp add: run_Nil caught_failure_streak_simps)
next
  case (snoc c cs)
  let ?b = "run clock b cs"
  let ?s = "caught_failure_streak (map outcome_of cs)"
  let ?T = "nat (sint (failureThreshold b))"
  have pre: "\<forall>k<length cs. state (run clock b (take k cs)) = CLOSED"
  proof (intro allI impI)
    fix k assume "k < length cs"
    then have "k < length (cs @ [c])" and "take k (cs @ [c]) = take k cs" by simp_all
    then show "state (run clock b (take k cs)) = CLOSED"
      using snoc.prems by metis
  qed
  have closed: "state ?b = CLOSED"
    using snoc.prems [rule_format, of "length cs"] by simp
  note ih = snoc.IH [OF pre]
  from ih closed have lt: "?s < ?T" by (auto split: if_splits)
  have Tbound: "sint (failureThreshold b) < 2147483648"
    using sint_less [of "failureThreshold b"] by simp
  have sbound: "Suc ?s < 2147483648" using lt Tbound by linarith
  have ft: "failureThreshold ?b = failureThreshold b" using ih by simp
  have fc: "failureCount ?b = of_nat ?s" using ih by simp
  show ?case
  proof (cases "outcome_of c")
    case (Returns r)
    then show ?thesis
      using closed ft assms(3)
      by (simp add: run_snoc call_closed caught_failure_streak_simps)
  next
    case ThrowsStdException
    have "sint (of_nat ?s :: cint) = int ?s"
      using sbound by (simp add: sint_of_nat_32)
    then have "sint (of_nat ?s + 1 :: cint) = int ?s + 1"
      using sbound by (simp add: sint_succ)
    then show ?thesis
      using ThrowsStdException closed ft fc lt
      by (auto simp add: run_snoc call_closed caught_failure_streak_simps onFailure_def Let_def)
  next
    case ThrowsOther
    then show ?thesis
      using closed ih lt
      by (simp add: run_snoc call_closed caught_failure_streak_simps)
  qed
qed

section \<open>Preservation of the invariants and reachability\<close>

subsection \<open>The failures counted outside the closed state\<close>

lemma below_INT_MAX:
  assumes "x \<noteq> INT_MAX"
  shows "sint x < 2147483647"
proof -
  have "sint x \<noteq> sint INT_MAX"
    using assms by (simp add: word_eq_iff_signed [where ?'a = int])
  moreover have "sint x < 2147483648"
    using sint_less [of x] by simp
  ultimately show ?thesis
    by (simp add: INT_MAX_def)
qed

lemma call_eq:
  "call clock b c =
     (case execute_guard (clock (fst c)) b of
        None \<Rightarrow> b
      | Some b1 \<Rightarrow>
          (case outcome_of c of
             Returns r \<Rightarrow> onSuccess b1
           | ThrowsStdException \<Rightarrow> onFailure (clock (snd (snd c (fst c)))) b1
           | ThrowsOther \<Rightarrow> b1))"
  by (simp add: call_def breaker_execute breaker_execute_try outcome_of_def
      split: option.splits)

lemma counted_guard:
  assumes "counted b" and "execute_guard now b = Some b1"
  shows "counted b1 \<and> state b1 \<noteq> OPEN \<and> failureCount b1 = failureCount b
       \<and> failureThreshold b1 = failureThreshold b"
  using assms by (auto simp add: counted_def execute_guard_def split: if_splits)

lemma counted_onSuccess:
  assumes "counted b" and "state b \<noteq> OPEN"
  shows "counted (onSuccess b)"
  using assms by (cases "state b") (auto simp add: counted_def onSuccess_def reset_def Let_def)

lemma counted_onFailure:
  assumes "counted b" and "failureCount b \<noteq> INT_MAX"
  shows "counted (onFailure now b)"
proof -
  have "sint (failureCount b + 1) = sint (failureCount b) + 1"
    using below_INT_MAX [OF assms(2)] by (rule sint_succ)
  then show ?thesis
    using assms(1) by (auto simp add: counted_def onFailure_def Let_def)
qed

lemma counted_call:
  assumes "counted b" and "failureCount b \<noteq> INT_MAX"
  shows "counted (call clock b c)"
proof (cases "execute_guard (clock (fst c)) b")
  case None
  then show ?thesis using assms(1) by (simp add: call_eq)
next
  case (Some b1)
  note g = counted_guard [OF assms(1) Some]
  show ?thesis
  proof (cases "outcome_of c")
    case (Returns r)
    then show ?thesis using Some g by (simp add: call_eq counted_onSuccess)
  next
    case ThrowsStdException
    then show ?thesis using Some g assms(2) by (simp add: call_eq counted_onFailure)
  next
    case ThrowsOther
    then show ?thesis using Some g by (simp add: call_eq)
  qed
qed

lemma counted_run:
  assumes "counted b"
    and "\<forall>k<length cs. failureCount (run clock b (take k cs)) \<noteq> INT_MAX"
  shows "counted (run clock b cs)"
  using assms(2)
proof (induction cs rule: rev_induct)
  case Nil
  show ?case using assms(1) by (simp add: run_Nil)
next
  case (snoc c cs)
  have pre: "\<forall>k<length cs. failureCount (run clock b (take k cs)) \<noteq> INT_MAX"
  proof (intro allI impI)
    fix k assume "k < length cs"
    then have "k < length (cs @ [c])" and "take k (cs @ [c]) = take k cs" by simp_all
    then show "failureCount (run clock b (take k cs)) \<noteq> INT_MAX"
      using snoc.prems by metis
  qed
  have last: "failureCount (run clock b cs) \<noteq> INT_MAX"
    using snoc.prems [rule_format, of "length cs"] by simp
  show ?case
    using snoc.IH [OF pre] last by (simp add: run_snoc counted_call)
qed

lemma counted_constructed:
  "CircuitBreaker ft rt st now = Inr b \<Longrightarrow> counted b"
  by (auto simp add: CircuitBreaker_def counted_def)

subsection \<open>Runs in any world stay among the reachable breakers\<close>

lemma reachable_call:
  assumes "reachable b"
  shows "reachable (call clock b c)"
proof -
  let ?f = "\<lambda>t :: time_point. (outcome_of c, clock (snd (snd c (fst c))))"
  have "call clock b c = breaker (execute (\<lambda>t. t) ?f b (clock (fst c)))"
    by (simp add: call_eq breaker_execute breaker_execute_try
        split: option.splits outcome.splits)
  then show ?thesis
    using reachable.executed [OF assms, of ?f "clock (fst c)"] by simp
qed

lemma reachable_run:
  "reachable b \<Longrightarrow> reachable (run clock b cs)"
  by (induction cs rule: rev_induct) (simp_all add: run_Nil run_snoc reachable_call)


subsection \<open>The breaker whose counter wraps\<close>

text \<open>
  The run of 2147483647 failures is not evaluated call by call: by induction, \<open>n\<close>
  failures leave \<^verbatim>\<open>failureCount\<close> at \<open>n\<close> as long as the threshold is not
  reached.
\<close>

lemma saturated_eq:
  "saturated = \<lparr>failureThreshold = 2147483647, retryTime = 5, successThreshold = 2,
     failureCount = 0, successCount = 0, state = CLOSED, lastFailureTime = 0\<rparr>"
  by (simp add: saturated_def CircuitBreaker_def INT_MAX_def)

lemma reachable_saturated: "reachable saturated"
  by (rule reachable.constructed [of INT_MAX 5 2 0]) (simp add: saturated_def CircuitBreaker_def)

lemma replicate_snoc: "replicate (Suc n) x = replicate n x @ [x]"
  by (simp add: replicate_append_same)

lemma saturated_step:
  assumes "n < 2147483646"
  shows "call fst (saturated\<lparr>failureCount := of_nat n\<rparr>) (at_second 0, failing)
       = saturated\<lparr>failureCount := of_nat (Suc n)\<rparr>"
proof -
  have "sint (of_nat n :: cint) = int n"
    using assms by (simp add: sint_of_nat_32)
  then have "sint (of_nat n + 1 :: cint) = int n + 1"
    using assms by (simp add: sint_succ)
  then show ?thesis
    using assms
    by (simp add: call_eq execute_guard_def outcome_of_def failing_def onFailure_def Let_def
        saturated_eq)
qed

lemma saturated_counting:
  "n < 2147483647 \<Longrightarrow>
     run fst saturated (replicate n (at_second 0, failing)) = saturated\<lparr>failureCount := of_nat n\<rparr>"
proof (induction n)
  case 0
  show ?case by (simp add: run_Nil saturated_eq)
next
  case (Suc n)
  then have n: "n < 2147483646" by simp
  have "run fst saturated (replicate (Suc n) (at_second 0, failing))
      = call fst (run fst saturated (replicate n (at_second 0, failing))) (at_second 0, failing)"
    by (simp only: replicate_snoc run_snoc)
  also have "\<dots> = call fst (saturated\<lparr>failureCount := of_nat n\<rparr>) (at_second 0, failing)"
    using Suc by simp
  also have "\<dots> = saturated\<lparr>failureCount := of_nat (Suc n)\<rparr>"
    using n by (rule saturated_step)
  finally show ?case .
qed

lemma saturated_tripping:
  assumes "Suc n = 2147483647"
  shows "run fst saturated (replicate (Suc n) (at_second 0, failing)) =
     \<lparr>failureThreshold = 2147483647, retryTime = 5, successThreshold = 2,
      failureCount = 2147483647, successCount = 0, state = OPEN, lastFailureTime = 0\<rparr>"
proof -
  have n: "n = 2147483646" using assms by simp
  have "run fst saturated (replicate (Suc n) (at_second 0, failing))
      = call fst (run fst saturated (replicate n (at_second 0, failing))) (at_second 0, failing)"
    by (simp only: replicate_snoc run_snoc)
  also have "\<dots> = call fst (saturated\<lparr>failureCount := of_nat n\<rparr>) (at_second 0, failing)"
    by (simp add: saturated_counting n)
  also have "\<dots> = \<lparr>failureThreshold = 2147483647, retryTime = 5, successThreshold = 2,
      failureCount = 2147483647, successCount = 0, state = OPEN, lastFailureTime = 0\<rparr>"
    by (simp add: n call_eq execute_guard_def outcome_of_def failing_def onFailure_def Let_def
        saturated_eq at_second_def)
  finally show ?thesis .
qed

lemma saturated_tripped_eq:
  "saturated_tripped = \<lparr>failureThreshold = 2147483647, retryTime = 5, successThreshold = 2,
     failureCount = 2147483647, successCount = 0, state = OPEN, lastFailureTime = 0\<rparr>"
proof -
  have e: "(2147483647 :: nat) = Suc 2147483646" by simp
  show ?thesis
    unfolding saturated_tripped_def
    by (subst e) (rule saturated_tripping, simp)
qed

lemma saturated_wrapped_eq:
  "saturated_wrapped = \<lparr>failureThreshold = 2147483647, retryTime = 5, successThreshold = 2,
     failureCount = - 2147483648, successCount = 0, state = HALF_OPEN, lastFailureTime = 0\<rparr>"
  by (simp add: saturated_wrapped_def saturated_tripped_eq model_defs stub_defs)

subsection \<open>The bound on the successes counted\<close>




section \<open>Successes in the half-open state\<close>




section \<open>Reachability of the scenario states\<close>





section \<open>Elapsed time in ticks\<close>

text \<open>
  For a positive \<^verbatim>\<open>retryTime\<close> the truncation to whole seconds changes nothing:
  the comparison of line 36 is the comparison of the elapsed ticks with the ticks of
  \<^verbatim>\<open>retryTime\<close> seconds.
\<close>

lemma elapsed_less_iff:
  assumes "0 < r"
  shows "duration_cast_seconds d < r \<longleftrightarrow> d < r * ticks_per_second"
proof (cases "0 \<le> d")
  case True
  have "d div 1000000000 < r \<longleftrightarrow> d < r * 1000000000"
    by linarith
  then show ?thesis
    using True by (simp add: duration_cast_seconds_def ticks_per_second_def)
next
  case False
  then have "0 \<le> (- d) div 1000000000"
    by (simp add: pos_imp_zdiv_nonneg_iff)
  moreover have "d < r * 1000000000"
    using False assms by (simp add: mult_pos_pos order.strict_trans)
  ultimately show ?thesis
    using False assms by (simp add: duration_cast_seconds_def ticks_per_second_def)
qed

section \<open>The properties\<close>

text \<open>
  C1, as the code has it. Take a breaker that is \<^verbatim>\<open>CLOSED\<close> with no failure
  counted (as it is after construction, after \<^verbatim>\<open>reset\<close> and after every
  success), with a positive \<^verbatim>\<open>failureThreshold\<close>, and feed it any sequence of
  calls each of which is made while the breaker is \<^verbatim>\<open>CLOSED\<close>. After the
  sequence the breaker is \<^verbatim>\<open>OPEN\<close> exactly when the sequence ends in
  \<^verbatim>\<open>failureThreshold\<close> consecutive caught failures (operations that throw an
  exception derived from \<^verbatim>\<open>std::exception\<close>), it is \<^verbatim>\<open>CLOSED\<close> exactly
  when it ends in fewer, and \<^verbatim>\<open>failureCount\<close> is the number of consecutive
  caught failures at the end of the sequence. A successful call made in
  \<^verbatim>\<open>CLOSED\<close> sets \<^verbatim>\<open>failureCount\<close> to 0 and changes nothing else. A call
  made in \<^verbatim>\<open>CLOSED\<close> whose operation throws any other object changes nothing: it
  is not counted and it does not reset the count.
\<close>

theorem closed_trips_at_threshold:
  assumes "state b = CLOSED" and "failureCount b = 0" and "0 < sint (failureThreshold b)"
    and "\<forall>k<length cs. state (run clock b (take k cs)) = CLOSED"
  shows "(state (run clock b cs) = OPEN \<longleftrightarrow>
            caught_failure_streak (map outcome_of cs) = nat (sint (failureThreshold b)))
       \<and> (state (run clock b cs) = CLOSED \<longleftrightarrow>
            caught_failure_streak (map outcome_of cs) < nat (sint (failureThreshold b)))
       \<and> failureCount (run clock b cs) = of_nat (caught_failure_streak (map outcome_of cs))
       \<and> (state b' = CLOSED \<and> outcome_of c = Returns r \<longrightarrow>
            call clock b' c = b'\<lparr>failureCount := 0\<rparr>)
       \<and> (state b' = CLOSED \<and> outcome_of c = ThrowsOther \<longrightarrow>
            call clock b' c = b')"
proof -
  note counts = closed_run_counts [OF assms]
  have "state b' = CLOSED \<and> outcome_of c = Returns r \<longrightarrow>
          call clock b' c = b'\<lparr>failureCount := 0\<rparr>"
    by (simp add: call_closed)
  moreover have "state b' = CLOSED \<and> outcome_of c = ThrowsOther \<longrightarrow> call clock b' c = b'"
    by (simp add: call_closed)
  ultimately show ?thesis
    using counts by (auto split: if_splits)
qed

text \<open>
  The breaker of \<^verbatim>\<open>main\<close> and its first three failures: the breaker is
  \<^verbatim>\<open>CLOSED\<close> before each of the three calls and \<^verbatim>\<open>OPEN\<close> after the third.
  A success after the first two failures takes \<^verbatim>\<open>failureCount\<close> from 2 to 0.
\<close>

theorem closed_trips_at_threshold_witness:
  "state (run fst demo three_failures) = OPEN
 \<and> caught_failure_streak (map outcome_of three_failures) = 3
 \<and> failureCount (run fst demo three_failures) = 3
 \<and> failureCount demo_two_failures = 2
 \<and> call fst demo_two_failures (at_second 2, succeeding) = demo_two_failures\<lparr>failureCount := 0\<rparr>
 \<and> failureCount (call fst demo_two_failures (at_second 2, succeeding)) = 0"
proof -
  have closed: "\<forall>k<length three_failures. state (run fst demo (take k three_failures)) = CLOSED"
  proof (intro allI impI)
    fix k assume "k < length three_failures"
    then have "k = 0 \<or> k = 1 \<or> k = 2"
      by (auto simp add: three_failures_def)
    then show "state (run fst demo (take k three_failures)) = CLOSED"
      by (auto simp add: demo_eq model_defs stub_defs)
  qed
  have streak: "caught_failure_streak (map outcome_of three_failures) = 3"
    by (simp add: caught_failure_streak_def outcome_of_def stub_defs)
  have "outcome_of (at_second 2, succeeding) = Returns ''Service success''"
    by (simp add: outcome_of_def succeeding_def)
  then show ?thesis
    using closed_trips_at_threshold [of demo three_failures fst demo_two_failures
        "(at_second 2, succeeding)" "''Service success''", OF _ _ _ closed] streak
    by (simp add: demo_eq demo_two_failures_eq)
qed

text \<open>
  C1 as stated fails. Three operations in a row fail by throwing an object that is not a
  \<^verbatim>\<open>std::exception\<close>; each call is made while the breaker is
  \<^verbatim>\<open>CLOSED\<close>, none succeeds, and \<^verbatim>\<open>failureThreshold\<close> is 3: the breaker
  is left \<^verbatim>\<open>CLOSED\<close> with \<^verbatim>\<open>failureCount\<close> 0.
\<close>

theorem uncaught_failures_do_not_trip:
  "state demo = CLOSED \<and> failureCount demo = 0 \<and> sint (failureThreshold demo) = 3
 \<and> map outcome_of three_uncaught = [ThrowsOther, ThrowsOther, ThrowsOther]
 \<and> operation_failure_streak (map outcome_of three_uncaught) = 3
 \<and> run fst demo (take 1 three_uncaught) = demo
 \<and> run fst demo (take 2 three_uncaught) = demo
 \<and> run fst demo three_uncaught = demo"
  by (simp add: demo_eq model_defs stub_defs three_uncaught_def outcome_of_def
      operation_failure_streak_def is_success_def)

text \<open>
  C2. A call of \<^verbatim>\<open>execute\<close> made while the breaker is \<^verbatim>\<open>OPEN\<close> and the
  elapsed time since \<^verbatim>\<open>lastFailureTime\<close>, in whole seconds as the code measures
  it, is less than \<^verbatim>\<open>retryTime\<close>: the call returns the fallback, the operation is
  not invoked (no invocation in the trace, the world is as it was), and the breaker is
  unchanged, hence still \<^verbatim>\<open>OPEN\<close>.
\<close>

theorem open_within_cooldown:
  assumes "state b = OPEN"
    and "duration_cast_seconds (clock w - lastFailureTime b) < sint (retryTime b)"
  shows "returned (execute clock func b w) = Inr fallback
       \<and> world (execute clock func b w) = w
       \<and> count_list (trace (execute clock func b w)) Invoke = 0
       \<and> breaker (execute clock func b w) = b
       \<and> state (breaker (execute clock func b w)) = OPEN"
  using assms by (simp add: execute_blocked execute_guard_blocked)

text \<open>The tripped breaker of the scenario, four seconds after its last failure.\<close>

theorem open_within_cooldown_witness:
  "returned (execute fst succeeding demo_tripped (at_second 6)) = Inr fallback
 \<and> world (execute fst succeeding demo_tripped (at_second 6)) = at_second 6
 \<and> count_list (trace (execute fst succeeding demo_tripped (at_second 6))) Invoke = 0
 \<and> breaker (execute fst succeeding demo_tripped (at_second 6)) = demo_tripped
 \<and> state (breaker (execute fst succeeding demo_tripped (at_second 6))) = OPEN"
proof -
  have "state demo_tripped = OPEN"
    by (simp add: demo_tripped_eq)
  moreover have "duration_cast_seconds (fst (at_second 6) - lastFailureTime demo_tripped)
      < sint (retryTime demo_tripped)"
    by (simp add: demo_tripped_eq at_second_def duration_cast_seconds_def ticks_per_second_def)
  ultimately show ?thesis
    by (rule open_within_cooldown)
qed

text \<open>
  C3, as the code has it. A call of \<^verbatim>\<open>execute\<close> made while the breaker is
  \<^verbatim>\<open>OPEN\<close> and the elapsed whole seconds since \<^verbatim>\<open>lastFailureTime\<close> are
  at least \<^verbatim>\<open>retryTime\<close>: the state becomes \<^verbatim>\<open>HALF_OPEN\<close> and no other
  field changes in that transition (\<^verbatim>\<open>successCount\<close> keeps its value); the call
  then goes through the \<^verbatim>\<open>try\<close> block with that breaker, and the operation is
  invoked exactly once.
\<close>

theorem open_after_cooldown:
  assumes "state b = OPEN"
    and "sint (retryTime b) \<le> duration_cast_seconds (clock w - lastFailureTime b)"
  shows "execute_guard (clock w) b = Some (b\<lparr>state := HALF_OPEN\<rparr>)
       \<and> execute clock func b w =
           (execute_try clock func (b\<lparr>state := HALF_OPEN\<rparr>) w)\<lparr>trace := [Acquire, Invoke, Release]\<rparr>
       \<and> world (execute clock func b w) = snd (func w)
       \<and> count_list (trace (execute clock func b w)) Invoke = 1"
proof -
  have g: "execute_guard (clock w) b = Some (b\<lparr>state := HALF_OPEN\<rparr>)"
    using assms by (rule execute_guard_retry)
  have "execute clock func b w =
      (execute_try clock func (b\<lparr>state := HALF_OPEN\<rparr>) w)\<lparr>trace := [Acquire, Invoke, Release]\<rparr>"
    using g by (rule execute_admitted)
  then show ?thesis
    by (simp add: g world_execute_try)
qed

text \<open>The tripped breaker of the scenario, five seconds after its last failure.\<close>

theorem open_after_cooldown_witness:
  "execute_guard (fst (at_second 7)) demo_tripped = Some (demo_tripped\<lparr>state := HALF_OPEN\<rparr>)
 \<and> world (execute fst succeeding demo_tripped (at_second 7)) = (7000000000, 1)
 \<and> count_list (trace (execute fst succeeding demo_tripped (at_second 7))) Invoke = 1
 \<and> breaker (execute fst succeeding demo_tripped (at_second 7)) = demo_trial"
proof -
  have "state demo_tripped = OPEN"
    by (simp add: demo_tripped_eq)
  moreover have "sint (retryTime demo_tripped)
      \<le> duration_cast_seconds (fst (at_second 7) - lastFailureTime demo_tripped)"
    by (simp add: demo_tripped_eq at_second_def duration_cast_seconds_def ticks_per_second_def)
  ultimately show ?thesis
    using open_after_cooldown [of demo_tripped fst "at_second 7" succeeding]
    by (simp add: demo_trial_def run_def call_def succeeding_def at_second_def
        ticks_per_second_def world_execute_try)
qed

text \<open>
  C3 as stated fails. The breaker of the scenario is \<^verbatim>\<open>OPEN\<close> again after a
  successful and a failed trial call, with \<^verbatim>\<open>successCount\<close> 1. Five seconds
  later the transition to \<^verbatim>\<open>HALF_OPEN\<close> leaves \<^verbatim>\<open>successCount\<close> at 1:
  a trial call that ends in an uncaught exception leaves exactly that breaker behind, and
  a single successful trial call closes the breaker although
  \<^verbatim>\<open>successThreshold\<close> is 2.
\<close>

theorem half_open_entry_keeps_successCount:
  "state demo_reopened = OPEN
 \<and> successCount demo_reopened = 1
 \<and> sint (retryTime demo_reopened)
      \<le> duration_cast_seconds (fst (at_second 13) - lastFailureTime demo_reopened)
 \<and> map_option successCount (execute_guard (fst (at_second 13)) demo_reopened) = Some 1
 \<and> breaker (execute fst throwing_other demo_reopened (at_second 13))
      = demo_reopened\<lparr>state := HALF_OPEN\<rparr>
 \<and> state (breaker (execute fst succeeding demo_reopened (at_second 13))) = CLOSED"
  by (simp add: demo_reopened_eq model_defs stub_defs)







text \<open>
  C6, as the code has it. Construction succeeds for every three \<^verbatim>\<open>int\<close>
  arguments, positive or not: the arguments are stored as given, both counters are 0, the
  state is \<^verbatim>\<open>CLOSED\<close> and \<^verbatim>\<open>lastFailureTime\<close> is the time of
  construction.
\<close>

theorem constructor_total:
  "\<exists>b. CircuitBreaker ft rt st now = Inr b
     \<and> failureThreshold b = ft \<and> retryTime b = rt \<and> successThreshold b = st
     \<and> failureCount b = 0 \<and> successCount b = 0 \<and> state b = CLOSED
     \<and> lastFailureTime b = now"
  by (simp add: CircuitBreaker_def)

text \<open>
  C6 as stated fails: construction with the non-positive arguments 0, -5 and 0 yields a
  breaker and no error.
\<close>

theorem constructor_accepts_nonpositive:
  "sint (0 :: cint) \<le> 0 \<and> sint (- 5 :: cint) \<le> 0
 \<and> CircuitBreaker 0 (- 5) 0 0 =
     Inr \<lparr>failureThreshold = 0, retryTime = - 5, successThreshold = 0, failureCount = 0,
          successCount = 0, state = CLOSED, lastFailureTime = 0\<rparr>"
  by (simp add: CircuitBreaker_def)

text \<open>
  C7, as the code has it. When the operation returns or throws an exception derived from
  \<^verbatim>\<open>std::exception\<close>, \<^verbatim>\<open>execute\<close> returns a value, which is the fallback
  or the value of the operation; the value of an operation that was invoked is returned as
  it is; a caught failure runs \<^verbatim>\<open>onFailure\<close> on the admitted breaker and the
  fallback is returned. An exception of any other type thrown by an invoked operation
  leaves \<^verbatim>\<open>execute\<close> uncaught, and neither \<^verbatim>\<open>onSuccess\<close> nor
  \<^verbatim>\<open>onFailure\<close> runs.
\<close>

theorem execute_absorbs_caught_failures:
  "(fst (func w) \<noteq> ThrowsOther \<longrightarrow>
      (\<exists>v. returned (execute clock func b w) = Inr v
          \<and> (v = fallback \<or> fst (func w) = Returns v)))
 \<and> (fst (func w) = Returns r \<and> execute_guard (clock w) b \<noteq> None \<longrightarrow>
      returned (execute clock func b w) = Inr r)
 \<and> (fst (func w) = ThrowsStdException \<longrightarrow>
      returned (execute clock func b w) = Inr fallback
    \<and> breaker (execute clock func b w) =
        (case execute_guard (clock w) b of
           None \<Rightarrow> b
         | Some b1 \<Rightarrow> onFailure (clock (snd (func w))) b1))
 \<and> (fst (func w) = ThrowsOther \<and> execute_guard (clock w) b = Some b1 \<longrightarrow>
      returned (execute clock func b w) = Inl UncaughtException
    \<and> breaker (execute clock func b w) = b1)"
proof (cases "execute_guard (clock w) b")
  case None
  then show ?thesis
    by (simp add: execute_blocked)
next
  case (Some b2)
  then show ?thesis
    by (simp add: execute_admitted returned_execute_try breaker_execute_try
        split: outcome.splits)
qed

text \<open>The first failure and a first success of the scenario.\<close>

theorem execute_absorbs_caught_failures_witness:
  "returned (execute fst failing demo (at_second 0)) = Inr fallback
 \<and> breaker (execute fst failing demo (at_second 0)) = demo\<lparr>failureCount := 1\<rparr>
 \<and> returned (execute fst succeeding demo (at_second 0)) = Inr ''Service success''"
proof -
  have f: "fst (failing (at_second 0)) = ThrowsStdException"
    by (simp add: failing_def)
  have s: "fst (succeeding (at_second 0)) = Returns ''Service success''"
    by (simp add: succeeding_def)
  have g: "execute_guard (fst (at_second 0)) demo = Some demo"
    by (simp add: execute_guard_def demo_eq)
  have o: "onFailure (fst (snd (failing (at_second 0)))) demo = demo\<lparr>failureCount := 1\<rparr>"
    by (simp add: onFailure_def demo_eq)
  show ?thesis
    using execute_absorbs_caught_failures [of failing "at_second 0" fst demo]
      execute_absorbs_caught_failures
        [of succeeding "at_second 0" fst demo "''Service success''"]
    by (simp add: f s g o)
qed

text \<open>
  C7 as stated fails: an operation that throws an object not derived from
  \<^verbatim>\<open>std::exception\<close> is invoked, and its exception reaches the caller of
  \<^verbatim>\<open>execute\<close>.
\<close>

theorem uncaught_exception_escapes:
  "state demo = CLOSED
 \<and> fst (throwing_other (at_second 0)) = ThrowsOther
 \<and> returned (execute fst throwing_other demo (at_second 0)) = Inl UncaughtException
 \<and> breaker (execute fst throwing_other demo (at_second 0)) = demo
 \<and> world (execute fst throwing_other demo (at_second 0)) = (0, 1)"
  by (simp add: demo_eq model_defs stub_defs)

text \<open>
  C8, as the code has it. \<^verbatim>\<open>getMetrics\<close> returns a map with exactly the keys
  \<^verbatim>\<open>failureCount\<close>, \<^verbatim>\<open>successCount\<close> and \<^verbatim>\<open>currentState\<close>, bound to
  \<^verbatim>\<open>failureCount\<close> as it is at the first read, \<^verbatim>\<open>successCount\<close> as it is at
  the second read and the ordinal of the state (0, 1, 2 for \<^verbatim>\<open>CLOSED\<close>,
  \<^verbatim>\<open>OPEN\<close>, \<^verbatim>\<open>HALF_OPEN\<close>) as it is at the third read. When the breaker is
  the same at the three reads the map holds its current values, and the call leaves
  every field of the breaker as it was.
\<close>

theorem getMetrics_reads_fields:
  "getMetrics_reads bf bs bt ''failureCount'' = Some (failureCount bf)
 \<and> getMetrics_reads bf bs bt ''successCount'' = Some (successCount bs)
 \<and> getMetrics_reads bf bs bt ''currentState'' = Some (state_ordinal (state bt))
 \<and> dom (getMetrics_reads bf bs bt) = {''failureCount'', ''successCount'', ''currentState''}
 \<and> state_ordinal CLOSED = 0 \<and> state_ordinal OPEN = 1 \<and> state_ordinal HALF_OPEN = 2
 \<and> fst (getMetrics b) = getMetrics_reads b b b
 \<and> fst (getMetrics b) ''failureCount'' = Some (failureCount b)
 \<and> fst (getMetrics b) ''successCount'' = Some (successCount b)
 \<and> fst (getMetrics b) ''currentState'' = Some (state_ordinal (state b))
 \<and> snd (getMetrics b) = b"
  by (auto simp add: getMetrics_def getMetrics_reads_def state_ordinal_def)

text \<open>
  C8 as stated fails. One thread calls \<^verbatim>\<open>getMetrics\<close> on the breaker of the
  scenario after its first two failures and reads \<^verbatim>\<open>failureCount\<close> 2; before its
  next read the third failing call of \<^verbatim>\<open>execute\<close> runs on another thread and
  trips the breaker. The map returned binds \<^verbatim>\<open>failureCount\<close> to 2 and
  \<^verbatim>\<open>currentState\<close> to the ordinal of \<^verbatim>\<open>OPEN\<close>: it is the snapshot of
  neither breaker.
\<close>

theorem getMetrics_torn_between_reads:
  "call fst demo_two_failures (at_second 2, failing) = demo_tripped
 \<and> getMetrics_reads demo_two_failures demo_tripped demo_tripped ''failureCount'' = Some 2
 \<and> getMetrics_reads demo_two_failures demo_tripped demo_tripped ''currentState''
      = Some (state_ordinal OPEN)
 \<and> fst (getMetrics demo_two_failures) ''currentState'' = Some (state_ordinal CLOSED)
 \<and> fst (getMetrics demo_tripped) ''failureCount'' = Some 3
 \<and> getMetrics_reads demo_two_failures demo_tripped demo_tripped
      \<noteq> fst (getMetrics demo_two_failures)
 \<and> getMetrics_reads demo_two_failures demo_tripped demo_tripped
      \<noteq> fst (getMetrics demo_tripped)"
proof -
  let ?torn = "getMetrics_reads demo_two_failures demo_tripped demo_tripped"
  have step: "call fst demo_two_failures (at_second 2, failing) = demo_tripped"
    by (simp add: demo_two_failures_eq demo_tripped_eq model_defs stub_defs)
  have fc: "?torn ''failureCount'' = Some 2"
    and st: "?torn ''currentState'' = Some (state_ordinal OPEN)"
    by (simp_all add: getMetrics_reads_def demo_two_failures_eq demo_tripped_eq)
  have before: "fst (getMetrics demo_two_failures) ''currentState'' = Some (state_ordinal CLOSED)"
    and after: "fst (getMetrics demo_tripped) ''failureCount'' = Some 3"
    by (simp_all add: getMetrics_def getMetrics_reads_def demo_two_failures_eq demo_tripped_eq)
  have "?torn \<noteq> fst (getMetrics demo_two_failures)"
  proof
    assume "?torn = fst (getMetrics demo_two_failures)"
    then have "?torn ''currentState'' = fst (getMetrics demo_two_failures) ''currentState''"
      by simp
    then show False
      using st before by (simp add: state_ordinal_def)
  qed
  moreover have "?torn \<noteq> fst (getMetrics demo_tripped)"
  proof
    assume "?torn = fst (getMetrics demo_tripped)"
    then have "?torn ''failureCount'' = fst (getMetrics demo_tripped) ''failureCount''"
      by simp
    then show False
      using fc after by simp
  qed
  ultimately show ?thesis
    using step fc st before after by simp
qed

text \<open>
  C9, as the code has it. In every breaker reached from construction by calls of
  \<^verbatim>\<open>execute\<close> none of which began with \<^verbatim>\<open>failureCount\<close> at the largest
  \<^verbatim>\<open>int\<close>, a state other than \<^verbatim>\<open>CLOSED\<close> comes with
  \<^verbatim>\<open>failureCount\<close> at least \<^verbatim>\<open>failureThreshold\<close>. The transition to
  \<^verbatim>\<open>HALF_OPEN\<close> keeps \<^verbatim>\<open>failureCount\<close>, \<^verbatim>\<open>onFailure\<close> only
  increments it, a success in \<^verbatim>\<open>HALF_OPEN\<close> short of
  \<^verbatim>\<open>successThreshold\<close> changes \<^verbatim>\<open>successCount\<close> alone, and under the
  invariant a failure in \<^verbatim>\<open>HALF_OPEN\<close> with \<^verbatim>\<open>failureCount\<close> below the
  largest \<^verbatim>\<open>int\<close> reopens the breaker.
\<close>

theorem open_states_counted:
  "(CircuitBreaker ft rt st start = Inr init
      \<and> (\<forall>k<length cs. failureCount (run clock init (take k cs)) \<noteq> INT_MAX)
      \<and> state (run clock init cs) \<noteq> CLOSED
    \<longrightarrow> sint (failureThreshold (run clock init cs)) \<le> sint (failureCount (run clock init cs)))
 \<and> (execute_guard now b = Some admitted \<longrightarrow> failureCount admitted = failureCount b)
 \<and> failureCount (onFailure now b) = failureCount b + 1
 \<and> (state b = HALF_OPEN \<and> sint (successCount b + 1) < sint (successThreshold b)
    \<longrightarrow> onSuccess b = b\<lparr>successCount := successCount b + 1\<rparr>)
 \<and> (state b = HALF_OPEN \<and> sint (failureThreshold b) \<le> sint (failureCount b)
      \<and> failureCount b \<noteq> INT_MAX
    \<longrightarrow> state (onFailure now b) = OPEN)"
proof (intro conjI impI)
  assume a: "CircuitBreaker ft rt st start = Inr init
      \<and> (\<forall>k<length cs. failureCount (run clock init (take k cs)) \<noteq> INT_MAX)
      \<and> state (run clock init cs) \<noteq> CLOSED"
  then have "CircuitBreaker ft rt st start = Inr init"
    by simp
  then have "counted init"
    by (rule counted_constructed)
  then have "counted (run clock init cs)"
    using a by (intro counted_run) simp_all
  then show "sint (failureThreshold (run clock init cs)) \<le> sint (failureCount (run clock init cs))"
    using a by (simp add: counted_def)
next
  assume "execute_guard now b = Some admitted"
  then show "failureCount admitted = failureCount b"
    by (auto simp add: execute_guard_def split: if_splits)
next
  show "failureCount (onFailure now b) = failureCount b + 1"
    by (simp add: onFailure_def Let_def)
next
  assume "state b = HALF_OPEN \<and> sint (successCount b + 1) < sint (successThreshold b)"
  then show "onSuccess b = b\<lparr>successCount := successCount b + 1\<rparr>"
    by (simp add: onSuccess_def Let_def)
next
  assume a: "state b = HALF_OPEN \<and> sint (failureThreshold b) \<le> sint (failureCount b)
      \<and> failureCount b \<noteq> INT_MAX"
  then have "sint (failureCount b + 1) = sint (failureCount b) + 1"
    by (intro sint_succ below_INT_MAX) simp
  then show "state (onFailure now b) = OPEN"
    using a by (simp add: onFailure_def Let_def)
qed

text \<open>The scenario up to its successful trial call.\<close>

theorem open_states_counted_witness:
  "state (run fst demo (three_failures @ [(at_second 7, succeeding)])) = HALF_OPEN
 \<and> sint (failureThreshold (run fst demo (three_failures @ [(at_second 7, succeeding)]))) = 3
 \<and> sint (failureCount (run fst demo (three_failures @ [(at_second 7, succeeding)]))) = 3
 \<and> state (onFailure 0 demo_trial) = OPEN"
proof -
  let ?cs = "three_failures @ [(at_second 7, succeeding)]"
  have c: "CircuitBreaker 3 5 2 0 = Inr demo"
    by (simp add: demo_def CircuitBreaker_def)
  have r: "run fst demo ?cs = demo_trial"
    by (simp add: demo_trial_def demo_tripped_def run_def)
  have n: "\<forall>k<length ?cs. failureCount (run fst demo (take k ?cs)) \<noteq> INT_MAX"
  proof (intro allI impI)
    fix k assume "k < length ?cs"
    then have "k = 0 \<or> k = 1 \<or> k = 2 \<or> k = 3"
      by (auto simp add: three_failures_def)
    then show "failureCount (run fst demo (take k ?cs)) \<noteq> INT_MAX"
      by (auto simp add: demo_eq model_defs stub_defs INT_MAX_def)
  qed
  have "state demo_trial = HALF_OPEN"
    and "sint (failureThreshold demo_trial) \<le> sint (failureCount demo_trial)"
    and "failureCount demo_trial \<noteq> INT_MAX"
    by (simp_all add: demo_trial_eq INT_MAX_def)
  then show ?thesis
    using open_states_counted [where ft = 3 and rt = 5 and st = 2 and start = 0
        and init = demo and cs = ?cs and clock = fst and b = demo_trial and now = 0] c n
    by (simp add: r demo_trial_eq)
qed

text \<open>
  C9 as stated fails. A breaker constructed with the largest \<^verbatim>\<open>int\<close> as
  \<^verbatim>\<open>failureThreshold\<close> trips at the 2147483647th consecutive failure; the failure
  of the trial call five seconds later wraps \<^verbatim>\<open>failureCount\<close> to the smallest
  \<^verbatim>\<open>int\<close>, the comparison of line 75 fails, and the breaker is left
  \<^verbatim>\<open>HALF_OPEN\<close> with \<^verbatim>\<open>failureCount\<close> below
  \<^verbatim>\<open>failureThreshold\<close>.
\<close>

theorem wrapped_counter_breaks_invariant:
  "reachable saturated_wrapped
 \<and> state saturated_wrapped = HALF_OPEN
 \<and> sint (failureCount saturated_wrapped) = - 2147483648
 \<and> sint (failureThreshold saturated_wrapped) = 2147483647
 \<and> sint (failureCount saturated_wrapped) < sint (failureThreshold saturated_wrapped)"
proof -
  have "reachable saturated_wrapped"
    unfolding saturated_wrapped_def saturated_tripped_def
    by (intro reachable_run reachable_saturated)
  then show ?thesis
    by (simp add: saturated_wrapped_eq)
qed

text \<open>
  C10, as the code has it. Every call of \<^verbatim>\<open>execute\<close> acquires the mutex once,
  on entry, and releases it once, on leaving; a call that invokes the operation invokes
  it between the two, with the mutex held. The check of the state and the transition
  after the operation lie in that one critical section.
\<close>

theorem lock_held_across_call:
  "trace (execute clock func b w) =
     (if execute_guard (clock w) b = None then [Acquire, Release]
      else [Acquire, Invoke, Release])
 \<and> invoked_while_held False (trace (execute clock func b w)) =
     (execute_guard (clock w) b \<noteq> None)
 \<and> count_list (trace (execute clock func b w)) Acquire = 1
 \<and> count_list (trace (execute clock func b w)) Release = 1"
proof (cases "execute_guard (clock w) b")
  case None
  then show ?thesis
    by (simp add: execute_blocked)
next
  case (Some b1)
  then show ?thesis
    by (simp add: execute_admitted)
qed

text \<open>A call that is short-circuited and a trial call of the scenario.\<close>

theorem lock_held_across_call_witness:
  "trace (execute fst failing demo_tripped (at_second 3)) = [Acquire, Release]
 \<and> trace (execute fst failing demo_tripped (at_second 7)) = [Acquire, Invoke, Release]"
proof -
  have "execute_guard (fst (at_second 3)) demo_tripped = None"
    and "execute_guard (fst (at_second 7)) demo_tripped \<noteq> None"
    by (simp_all add: demo_tripped_eq execute_guard_def at_second_def
        duration_cast_seconds_def ticks_per_second_def)
  then show ?thesis
    using lock_held_across_call [of fst failing demo_tripped "at_second 3"]
      lock_held_across_call [of fst failing demo_tripped "at_second 7"]
    by simp
qed

text \<open>
  C10 as stated fails: in the first call of the scenario the operation is invoked while
  the mutex is held.
\<close>

theorem operation_invoked_under_lock:
  "trace (execute fst succeeding demo (at_second 0)) = [Acquire, Invoke, Release]
 \<and> invoked_while_held False (trace (execute fst succeeding demo (at_second 0)))"
  by (simp add: demo_eq model_defs stub_defs)

end
